theory Spec2Isabelle
  imports Main "HOL-Library.Word"
begin

unbundle bit_operations_syntax

section \<open>Python values\<close>

text \<open>
  A Python \<open>str\<close> is a sequence of code points (numbers below \<open>0x110000\<close>, lone
  surrogates included); \<open>bytes\<close> is a sequence of 8-bit values. Dictionary keys are
  always ASCII literals in the source and are kept as HOL strings. A dictionary value
  that may be \<open>None\<close> is an option.
\<close>

type_synonym pystr = "nat list"
type_synonym bytes = "8 word list"

datatype py_error = UnicodeEncodeError | UnicodeDecodeError

definition ascii :: "string \<Rightarrow> pystr" where
  "ascii s = map of_char s"

definition ascii_bytes :: "string \<Rightarrow> bytes" where
  "ascii_bytes s = map of_char s"

definition is_surrogate :: "nat \<Rightarrow> bool" where
  "is_surrogate ch \<longleftrightarrow> 0xD800 \<le> ch \<and> ch \<le> 0xDFFF"

definition is_text :: "pystr \<Rightarrow> bool" where
  \<comment> \<open>Unicode text: every code point is a scalar value.\<close>
  "is_text s \<longleftrightarrow> list_all (\<lambda>ch. ch < 0x110000 \<and> \<not> is_surrogate ch) s"

subsection \<open>\<open>str.encode()\<close>: UTF-8, strict\<close>

definition utf8_char :: "nat \<Rightarrow> bytes option" where
  "utf8_char ch =
     (if ch < 0x80 then Some [of_nat ch]
      else if ch < 0x800 then
        Some [of_nat (0xC0 OR drop_bit 6 ch), of_nat (0x80 OR (ch AND 0x3F))]
      else if is_surrogate ch then None
      else if ch < 0x10000 then
        Some [of_nat (0xE0 OR drop_bit 12 ch),
              of_nat (0x80 OR (drop_bit 6 ch AND 0x3F)),
              of_nat (0x80 OR (ch AND 0x3F))]
      else if ch < 0x110000 then
        Some [of_nat (0xF0 OR drop_bit 18 ch),
              of_nat (0x80 OR (drop_bit 12 ch AND 0x3F)),
              of_nat (0x80 OR (drop_bit 6 ch AND 0x3F)),
              of_nat (0x80 OR (ch AND 0x3F))]
      else None)"

fun str_encode :: "pystr \<Rightarrow> py_error + bytes" where
  "str_encode [] = Inr []"
| "str_encode (ch # s) =
     (case utf8_char ch of
        None \<Rightarrow> Inl UnicodeEncodeError
      | Some bs \<Rightarrow> (case str_encode s of Inl e \<Rightarrow> Inl e | Inr r \<Rightarrow> Inr (bs @ r)))"

subsection \<open>\<open>bytes.decode()\<close>: UTF-8, strict\<close>

definition is_cont :: "8 word \<Rightarrow> bool" where
  "is_cont b \<longleftrightarrow> 0x80 \<le> b \<and> b \<le> 0xBF"

definition cont_bits :: "8 word \<Rightarrow> nat" where
  "cont_bits b = unat (b AND 0x3F)"

fun bytes_decode :: "bytes \<Rightarrow> py_error + pystr" where
  "bytes_decode [] = Inr []"
| "bytes_decode (b0 # bs) =
     (if b0 < 0x80 then map_sum id ((#) (unat b0)) (bytes_decode bs)
      else if 0xC2 \<le> b0 \<and> b0 \<le> 0xDF then
        (case bs of
           b1 # r \<Rightarrow>
             if is_cont b1
             then map_sum id ((#) (push_bit 6 (unat (b0 AND 0x1F)) OR cont_bits b1))
                    (bytes_decode r)
             else Inl UnicodeDecodeError
         | _ \<Rightarrow> Inl UnicodeDecodeError)
      else if 0xE0 \<le> b0 \<and> b0 \<le> 0xEF then
        (case bs of
           b1 # b2 # r \<Rightarrow>
             if is_cont b1 \<and> is_cont b2
                \<and> (b0 = 0xE0 \<longrightarrow> 0xA0 \<le> b1) \<and> (b0 = 0xED \<longrightarrow> b1 \<le> 0x9F)
             then map_sum id
                    ((#) (push_bit 12 (unat (b0 AND 0x0F)) OR push_bit 6 (cont_bits b1)
                          OR cont_bits b2))
                    (bytes_decode r)
             else Inl UnicodeDecodeError
         | _ \<Rightarrow> Inl UnicodeDecodeError)
      else if 0xF0 \<le> b0 \<and> b0 \<le> 0xF4 then
        (case bs of
           b1 # b2 # b3 # r \<Rightarrow>
             if is_cont b1 \<and> is_cont b2 \<and> is_cont b3
                \<and> (b0 = 0xF0 \<longrightarrow> 0x90 \<le> b1) \<and> (b0 = 0xF4 \<longrightarrow> b1 \<le> 0x8F)
             then map_sum id
                    ((#) (push_bit 18 (unat (b0 AND 0x07)) OR push_bit 12 (cont_bits b1)
                          OR push_bit 6 (cont_bits b2) OR cont_bits b3))
                    (bytes_decode r)
             else Inl UnicodeDecodeError
         | _ \<Rightarrow> Inl UnicodeDecodeError)
      else Inl UnicodeDecodeError)"

subsection \<open>\<open>base64.b64encode\<close>\<close>

definition b64_table :: bytes where
  "b64_table =
     ascii_bytes ''ABCDEFGHIJKLMNOPQRSTUVWXYZabcdefghijklmnopqrstuvwxyz0123456789+/''"

definition b64_pad :: "8 word" where
  "b64_pad = of_char CHR ''=''"

definition b64_digit :: "8 word \<Rightarrow> 8 word" where
  "b64_digit i = b64_table ! unat i"

fun b64encode :: "bytes \<Rightarrow> bytes" where
  "b64encode (a # b # c # rest) =
     [b64_digit (drop_bit 2 a),
      b64_digit (push_bit 4 (a AND 0x03) OR drop_bit 4 b),
      b64_digit (push_bit 2 (b AND 0x0F) OR drop_bit 6 c),
      b64_digit (c AND 0x3F)] @ b64encode rest"
| "b64encode [a, b] =
     [b64_digit (drop_bit 2 a),
      b64_digit (push_bit 4 (a AND 0x03) OR drop_bit 4 b),
      b64_digit (push_bit 2 (b AND 0x0F)),
      b64_pad]"
| "b64encode [a] =
     [b64_digit (drop_bit 2 a),
      b64_digit (push_bit 4 (a AND 0x03)),
      b64_pad,
      b64_pad]"
| "b64encode [] = []"

subsection \<open>\<open>json.dumps\<close> on a dictionary of strings\<close>

text \<open>
  The encoder with its defaults (\<open>ensure_ascii\<close>, separators \<open>", "\<close> and \<open>": "\<close>):
  every character other than a printable ASCII one, and the quote and the backslash,
  is escaped; a code point above \<open>0xFFFF\<close> becomes a surrogate pair of \<open>\uXXXX\<close>.
  Code 34 is the quote, 92 the backslash.
\<close>

definition hex_digit :: "nat \<Rightarrow> nat" where
  "hex_digit d = ascii ''0123456789abcdef'' ! d"

definition hex4 :: "nat \<Rightarrow> pystr" where
  \<comment> \<open>\<open>'\\u{0:04x}'.format(n)\<close>, for \<open>n < 0x10000\<close>\<close>
  "hex4 n = [92, of_char CHR ''u'',
             hex_digit (n div 4096 mod 16), hex_digit (n div 256 mod 16),
             hex_digit (n div 16 mod 16), hex_digit (n mod 16)]"

definition escape_char :: "nat \<Rightarrow> pystr" where
  "escape_char ch =
     (if ch = 92 then [92, 92]
      else if ch = 34 then [92, 34]
      else if ch = 8 then [92, of_char CHR ''b'']
      else if ch = 12 then [92, of_char CHR ''f'']
      else if ch = 10 then [92, of_char CHR ''n'']
      else if ch = 13 then [92, of_char CHR ''r'']
      else if ch = 9 then [92, of_char CHR ''t'']
      else if 0x20 \<le> ch \<and> ch \<le> 0x7E then [ch]
      else if ch < 0x10000 then hex4 ch
      else
        (let n = ch - 0x10000;
             s1 = 0xD800 OR (drop_bit 10 n AND 0x3FF);
             s2 = 0xDC00 OR (n AND 0x3FF)
         in hex4 s1 @ hex4 s2))"

definition encode_basestring_ascii :: "pystr \<Rightarrow> pystr" where
  "encode_basestring_ascii s = [34] @ concat (map escape_char s) @ [34]"

fun json_items :: "(string \<times> pystr) list \<Rightarrow> pystr" where
  "json_items [] = []"
| "json_items [(k, v)] =
     encode_basestring_ascii (ascii k) @ ascii '': '' @ encode_basestring_ascii v"
| "json_items ((k, v) # kvs) =
     encode_basestring_ascii (ascii k) @ ascii '': '' @ encode_basestring_ascii v
       @ ascii '', '' @ json_items kvs"

definition json_dumps :: "(string \<times> pystr) list \<Rightarrow> pystr" where
  "json_dumps d = ascii ''{'' @ json_items d @ ascii ''}''"

subsection \<open>Reading a JSON object of strings back\<close>

text \<open>
  \<open>json.loads\<close> on the texts that matter here: an object whose values are strings
  (any other value is \<open>None\<close>). It is the decoder's \<open>py_scanstring\<close> (strict) and
  \<open>JSONObject\<close>; the pairs are returned in the order read. What is left after a
  pair is shorter than the text it was read from; \<open>json_pairs\<close> tests this before it
  goes on, which makes its recursion well-founded by construction. A high surrogate escape
  followed by a low surrogate escape is read as one code point.
\<close>

definition hex_val :: "nat \<Rightarrow> nat option" where
  "hex_val c =
     (if 48 \<le> c \<and> c \<le> 57 then Some (c - 48)
      else if 97 \<le> c \<and> c \<le> 102 then Some (c - 87)
      else if 65 \<le> c \<and> c \<le> 70 then Some (c - 55)
      else None)"

definition decode_uXXXX :: "pystr \<Rightarrow> nat option" where
  "decode_uXXXX s =
     (case s of
        a # b # c # d # _ \<Rightarrow>
          (case (hex_val a, hex_val b, hex_val c, hex_val d) of
             (Some x, Some y, Some z, Some w) \<Rightarrow> Some (((x * 16 + y) * 16 + z) * 16 + w)
           | _ \<Rightarrow> None)
      | _ \<Rightarrow> None)"

definition backslash :: "nat \<Rightarrow> nat option" where
  "backslash esc =
     (if esc = 34 then Some 34
      else if esc = 92 then Some 92
      else if esc = of_char CHR ''/'' then Some (of_char CHR ''/'')
      else if esc = of_char CHR ''b'' then Some 8
      else if esc = of_char CHR ''f'' then Some 12
      else if esc = of_char CHR ''n'' then Some 10
      else if esc = of_char CHR ''r'' then Some 13
      else if esc = of_char CHR ''t'' then Some 9
      else None)"

definition cons_str :: "nat \<Rightarrow> (pystr \<times> pystr) option \<Rightarrow> (pystr \<times> pystr) option" where
  "cons_str ch r = map_option (\<lambda>(v, rest). (ch # v, rest)) r"

function scanstring :: "pystr \<Rightarrow> (pystr \<times> pystr) option" where
  "scanstring [] = None"
| "scanstring (c # s) =
     (if c = 34 then Some ([], s)
      else if c = 92 then
        (case s of
           [] \<Rightarrow> None
         | esc # s1 \<Rightarrow>
             if esc \<noteq> of_char CHR ''u'' then
               (case backslash esc of
                  None \<Rightarrow> None
                | Some ch \<Rightarrow> cons_str ch (scanstring s1))
             else
               (case decode_uXXXX s1 of
                  None \<Rightarrow> None
                | Some uni \<Rightarrow>
                    if 0xD800 \<le> uni \<and> uni \<le> 0xDBFF
                       \<and> take 2 (drop 4 s1) = [92, of_char CHR ''u''] then
                      (case decode_uXXXX (drop 6 s1) of
                         None \<Rightarrow> None
                       | Some uni2 \<Rightarrow>
                           if 0xDC00 \<le> uni2 \<and> uni2 \<le> 0xDFFF then
                             cons_str
                               (0x10000 + (push_bit 10 (uni - 0xD800) OR (uni2 - 0xDC00)))
                               (scanstring (drop 10 s1))
                           else cons_str uni (scanstring (drop 4 s1)))
                    else cons_str uni (scanstring (drop 4 s1))))
      else if c < 0x20 then None
      else cons_str c (scanstring s))"
  by pat_completeness auto
termination
  by (relation "measure length") auto

definition skip_ws :: "pystr \<Rightarrow> pystr" where
  "skip_ws s = dropWhile (\<lambda>c. c = 32 \<or> c = 9 \<or> c = 10 \<or> c = 13) s"

function json_pairs :: "pystr \<Rightarrow> ((pystr \<times> pystr) list \<times> pystr) option" where
  "json_pairs s =
     (case scanstring s of
        None \<Rightarrow> None
      | Some (key, s1) \<Rightarrow>
          (case skip_ws s1 of
             [] \<Rightarrow> None
           | c1 # s2 \<Rightarrow>
               if c1 \<noteq> of_char CHR '':'' then None
               else
                 (case skip_ws s2 of
                    [] \<Rightarrow> None
                  | c2 # s3 \<Rightarrow>
                      if c2 \<noteq> 34 then None
                      else
                        (case scanstring s3 of
                           None \<Rightarrow> None
                         | Some (val, s4) \<Rightarrow>
                             (case skip_ws s4 of
                                [] \<Rightarrow> None
                              | c3 # s5 \<Rightarrow>
                                  if c3 = of_char CHR ''}'' then Some ([(key, val)], s5)
                                  else if c3 \<noteq> of_char CHR '','' then None
                                  else
                                    (case skip_ws s5 of
                                       [] \<Rightarrow> None
                                     | c4 # s6 \<Rightarrow>
                                         if c4 \<noteq> 34 \<or> length s \<le> length s6 then None
                                         else
                                           (case json_pairs s6 of
                                              None \<Rightarrow> None
                                            | Some (kvs, r) \<Rightarrow> Some ((key, val) # kvs, r))))))))"
  by pat_completeness auto
termination
  by (relation "measure length") auto

declare json_pairs.simps [simp del]

definition json_loads :: "pystr \<Rightarrow> (pystr \<times> pystr) list option" where
  "json_loads s =
     (case skip_ws s of
        [] \<Rightarrow> None
      | c # s1 \<Rightarrow>
          if c \<noteq> of_char CHR ''{'' then None
          else
            (case skip_ws s1 of
               [] \<Rightarrow> None
             | c1 # s2 \<Rightarrow>
                 if c1 = of_char CHR ''}'' then (if skip_ws s2 = [] then Some [] else None)
                 else if c1 \<noteq> 34 then None
                 else
                   (case json_pairs s2 of
                      None \<Rightarrow> None
                    | Some (kvs, r) \<Rightarrow> if skip_ws r = [] then Some kvs else None)))"

definition json_field :: "pystr \<Rightarrow> string \<Rightarrow> pystr option" where
  \<comment> \<open>\<open>json.loads(body).get(k)\<close>: of two pairs with one key the later one counts\<close>
  "json_field body k =
     (case json_loads body of None \<Rightarrow> None | Some kvs \<Rightarrow> map_of (rev kvs) (ascii k))"

section \<open>The client\<close>

record NtfySender =
  server_url :: pystr
  default_topic :: pystr
  auth :: "pystr option"
  headers :: "string \<rightharpoonup> pystr option"

definition set_auth :: "pystr option \<Rightarrow> pystr option \<Rightarrow> NtfySender \<Rightarrow> py_error + NtfySender" where
  "set_auth ntfy_user ntfy_password self =
     (case (ntfy_user, ntfy_password) of
        (Some u, Some p) \<Rightarrow>
          (case str_encode (u @ ascii '':'' @ p) of
             Inl e \<Rightarrow> Inl e
           | Inr bs \<Rightarrow>
               (case bytes_decode (b64encode bs) of
                  Inl e \<Rightarrow> Inl e
                | Inr s \<Rightarrow> Inr (self\<lparr>auth := Some (ascii ''Basic '' @ s)\<rparr>)))
      | _ \<Rightarrow> Inr (self\<lparr>auth := None\<rparr>))"

definition set_header :: "NtfySender \<Rightarrow> NtfySender" where
  "set_header self =
     (let self = self\<lparr>headers := Map.empty\<rparr>
      in case auth self of
           Some a \<Rightarrow> self\<lparr>headers := (headers self)(''Authorization'' \<mapsto> Some a)\<rparr>
         | None \<Rightarrow> self)"

definition NtfySender_init ::
  "pystr \<Rightarrow> pystr \<Rightarrow> pystr option \<Rightarrow> pystr option \<Rightarrow> py_error + NtfySender" where
  \<comment> \<open>The attributes \<open>_auth\<close> and \<open>headers\<close> do not exist before the two setters run;
      the record holds \<open>None\<close> and the empty dictionary until then.\<close>
  "NtfySender_init url topic ntfy_user ntfy_password =
     (let self = \<lparr>server_url = url, default_topic = topic, auth = None, headers = Map.empty\<rparr>
      in case set_auth ntfy_user ntfy_password self of
           Inl e \<Rightarrow> Inl e
         | Inr self \<Rightarrow> Inr (set_header self))"

subsection \<open>The HTTP call\<close>

record request =
  post_url :: pystr
  post_headers :: "string \<rightharpoonup> pystr option"
  post_data :: pystr
  post_timeout :: int

record response =
  status_code :: nat

text \<open>
  \<open>requests.post\<close> either raises (an exception of the library, of type \<open>'e\<close> here) or
  returns the server's response, whatever its status. The network is a parameter: it
  answers a request given the requests made so far. The call appends its request to
  that log.
\<close>

type_synonym 'e network = "request list \<Rightarrow> request \<Rightarrow> 'e + response"

definition requests_post :: "'e network \<Rightarrow> request \<Rightarrow> request list \<Rightarrow> ('e + response) \<times> request list" where
  "requests_post net req log = (net log req, log @ [req])"

subsection \<open>\<open>send_msg\<close>\<close>

text \<open>
  The arguments of one call. An argument left out in Python has its default: \<open>None\<close>,
  and 10 for \<open>timeout\<close>.
\<close>

record send_args =
  title :: pystr
  message :: pystr
  link_url :: "pystr option"
  topic :: "pystr option"
  tags :: "pystr option"
  icon :: "pystr option"
  timeout :: int

definition send_msg ::
  "'e network \<Rightarrow> send_args \<Rightarrow> NtfySender \<times> request list
     \<Rightarrow> ('e + unit) \<times> NtfySender \<times> request list" where
  "send_msg net a st =
     (case st of (self, log) \<Rightarrow>
        let topic_send = (case topic a of None \<Rightarrow> default_topic self | Some t \<Rightarrow> t);
            self = self\<lparr>headers := (headers self)(''Title'' \<mapsto> Some (title a))\<rparr>;
            self = self\<lparr>headers := (headers self)(''Click'' \<mapsto> link_url a)\<rparr>;
            self = (case tags a of
                      Some t \<Rightarrow> self\<lparr>headers := (headers self)(''Tags'' \<mapsto> Some t)\<rparr>
                    | None \<Rightarrow> self);
            self = (case icon a of
                      Some i \<Rightarrow> self\<lparr>headers := (headers self)(''Icon'' \<mapsto> Some i)\<rparr>
                    | None \<Rightarrow> self)
        in case requests_post net
                  \<lparr>post_url = server_url self,
                   post_headers = headers self,
                   post_data = json_dumps [(''topic'', topic_send), (''message'', message a)],
                   post_timeout = timeout a\<rparr> log of
             (Inl e, log') \<Rightarrow> (Inl e, self, log')
           | (Inr r, log') \<Rightarrow> (Inr (), self, log'))"

text \<open>
  A caller that sends one message after the other on the same client, going on after a
  call that raised; the results are collected in order.
\<close>

fun send_all ::
  "'e network \<Rightarrow> send_args list \<Rightarrow> NtfySender \<times> request list
     \<Rightarrow> ('e + unit) list \<times> NtfySender \<times> request list" where
  "send_all net [] st = ([], st)"
| "send_all net (a # as) st =
     (case send_msg net a st of
        (r, st') \<Rightarrow> (case send_all net as st' of (rs, st'') \<Rightarrow> (r # rs, st'')))"

subsection \<open>The scenarios of the specification\<close>

text \<open>
  A client without credentials and one for user \<open>bob\<close>, as the constructor builds
  them; the notification of the end-to-end scenario and one with tags and an icon;
  networks that answer every request with status 200, with status 500, or not in time.
\<close>

definition alerts_client :: NtfySender where
  "alerts_client =
     \<lparr>server_url = ascii ''https://ntfy.sh/'', default_topic = ascii ''alerts'',
      auth = None, headers = Map.empty\<rparr>"

definition bob_client :: NtfySender where
  "bob_client =
     \<lparr>server_url = ascii ''https://ntfy.sh/'', default_topic = ascii ''alerts'',
      auth = Some (ascii ''Basic Ym9iOnNlY3JldA==''),
      headers = [''Authorization'' \<mapsto> Some (ascii ''Basic Ym9iOnNlY3JldA=='')]\<rparr>"

definition disk_full :: send_args where
  "disk_full =
     \<lparr>title = ascii ''Disk Full'', message = ascii ''90% used'', link_url = None,
      topic = None, tags = None, icon = None, timeout = 10\<rparr>"

definition tagged :: send_args where
  "tagged =
     \<lparr>title = [], message = ascii ''backup done'',
      link_url = Some (ascii ''https://example.org/''), topic = Some (ascii ''jobs''),
      tags = Some (ascii ''tada''), icon = Some (ascii ''https://example.org/i.png''),
      timeout = 10\<rparr>"

datatype requests_exception = ConnectionError | Timeout

definition timeout_net :: "requests_exception network" where
  \<comment> \<open>the server does not answer in time: \<open>requests.post\<close> raises\<close>
  "timeout_net log req = Inl Timeout"

definition server_error_net :: "requests_exception network" where
  \<comment> \<open>the server answers every request with status 500\<close>
  "server_error_net log req = Inr \<lparr>status_code = 500\<rparr>"

definition ok_net :: "unit network" where
  "ok_net log req = Inr \<lparr>status_code = 200\<rparr>"

section \<open>Reading back what \<open>json.dumps\<close> wrote\<close>

lemma hex_val_hex_digit: "d < 16 \<Longrightarrow> hex_val (hex_digit d) = Some d"
proof -
  assume "d < 16"
  then have "d = 0 \<or> d = 1 \<or> d = 2 \<or> d = 3 \<or> d = 4 \<or> d = 5 \<or> d = 6 \<or> d = 7
    \<or> d = 8 \<or> d = 9 \<or> d = 10 \<or> d = 11 \<or> d = 12 \<or> d = 13 \<or> d = 14 \<or> d = 15"
    by presburger
  then show ?thesis
    by (elim disjE) (simp_all add: hex_val_def hex_digit_def ascii_def)
qed

lemma hex_digits_value:
  assumes "(n::nat) < 65536"
  shows "((n div 4096 mod 16 * 16 + n div 256 mod 16) * 16 + n div 16 mod 16) * 16 + n mod 16 = n"
proof -
  have a: "n = 16 * (n div 16) + n mod 16" by simp
  have b: "n div 16 = 16 * (n div 256) + n div 16 mod 16"
    using div_mult_mod_eq [of "n div 16" 16] by (simp add: div_mult2_eq [symmetric])
  have c: "n div 256 = 16 * (n div 4096) + n div 256 mod 16"
    using div_mult_mod_eq [of "n div 256" 16] by (simp add: div_mult2_eq [symmetric])
  have d: "n div 4096 mod 16 = n div 4096" using assms by simp
  have e: "((d3 * 16 + d2) * 16 + d1) * 16 + d0 = m"
    if "m = 16 * q1 + d0" "q1 = 16 * q2 + d1" "q2 = 16 * d3 + d2" for d0 d1 d2 d3 q1 q2 m :: nat
    using that by simp
  show ?thesis unfolding d by (rule e [OF a b c])
qed

lemma decode_hex4: "n < 65536 \<Longrightarrow> decode_uXXXX (drop 2 (hex4 n @ r)) = Some n"
proof -
  assume n: "n < 65536"
  have "decode_uXXXX (drop 2 (hex4 n @ r)) =
    Some (((n div 4096 mod 16 * 16 + n div 256 mod 16) * 16 + n div 16 mod 16) * 16 + n mod 16)"
    by (simp add: decode_uXXXX_def hex4_def hex_val_hex_digit)
  then show ?thesis by (simp only: hex_digits_value [OF n])
qed

lemma take_hex4: "take 2 (hex4 n @ r) = [92, of_char CHR ''u'']"
  by (simp add: hex4_def)

lemma drop_hex4: "drop 6 (hex4 n @ r) = r"
  by (simp add: hex4_def)

lemma and_1023: "(x::nat) AND 1023 = x mod 1024"
proof -
  have "x AND mask 10 = x mod 2 ^ 10"
    by (simp add: take_bit_eq_mask [symmetric] take_bit_eq_mod)
  then show ?thesis by (simp add: mask_eq_exp_minus_1)
qed

lemma or_high: "x < 1024 \<Longrightarrow> push_bit 10 (k::nat) OR x = push_bit 10 k + x"
proof -
  assume "x < 1024"
  then have x: "take_bit 10 x = x" by (simp add: take_bit_eq_mod)
  have "push_bit 10 k AND take_bit 10 x = 0"
    by (rule bit_eqI) (auto simp: bit_simps)
  then show ?thesis using x by (simp add: disjunctive_add_eq_or)
qed

lemma surrogates:
  assumes "(n::nat) < 1048576"
  shows "0xD800 OR (drop_bit 10 n AND 0x3FF) = 0xD800 + n div 1024"
    and "0xDC00 OR (n AND 0x3FF) = 0xDC00 + n mod 1024"
    and "push_bit 10 (n div 1024) OR (n mod 1024) = n"
proof -
  have a: "(0xD800::nat) = push_bit 10 54" and b: "(0xDC00::nat) = push_bit 10 55" by simp_all
  have d: "n div 1024 < 1024" using assms by simp
  show "0xD800 OR (drop_bit 10 n AND 0x3FF) = 0xD800 + n div 1024"
    unfolding a using d by (simp add: and_1023 drop_bit_eq_div or_high del: push_bit_numeral)
  show "0xDC00 OR (n AND 0x3FF) = 0xDC00 + n mod 1024"
    unfolding b by (simp add: and_1023 or_high del: push_bit_numeral)
  show "push_bit 10 (n div 1024) OR (n mod 1024) = n"
    using or_high [of "n mod 1024" "n div 1024"] by (simp add: push_bit_eq_mult)
qed


lemma scan_hex4:
  assumes "n < 65536"
  shows "scanstring (hex4 n @ r) =
     (if 0xD800 \<le> n \<and> n \<le> 0xDBFF \<and> take 2 r = [92, of_char CHR ''u''] then
        (case decode_uXXXX (drop 2 r) of
           None \<Rightarrow> None
         | Some uni2 \<Rightarrow>
             if 0xDC00 \<le> uni2 \<and> uni2 \<le> 0xDFFF then
               cons_str (0x10000 + (push_bit 10 (n - 0xD800) OR (uni2 - 0xDC00)))
                 (scanstring (drop 6 r))
             else cons_str n (scanstring r))
      else cons_str n (scanstring r))"
proof -
  obtain a b c d where h: "hex4 n = [92, of_char CHR ''u'', a, b, c, d]"
    by (simp add: hex4_def)
  have "decode_uXXXX (a # b # c # d # r) = Some n"
    using decode_hex4 [OF assms, of r] by (simp add: h)
  then show ?thesis
    by (simp add: h cong: option.case_cong if_cong)
qed

lemma scan_escape_char:
  assumes "ch < 0x110000" and "\<not> is_surrogate ch"
  shows "scanstring (escape_char ch @ r) = cons_str ch (scanstring r)"
proof -
  consider (special) "ch = 92 \<or> ch = 34 \<or> ch = 8 \<or> ch = 12 \<or> ch = 10 \<or> ch = 13 \<or> ch = 9"
    | (plain) "0x20 \<le> ch" "ch \<le> 0x7E" "ch \<noteq> 92" "ch \<noteq> 34"
    | (bmp) "ch < 0x20 \<or> 0x7E < ch" "ch < 0x10000" "ch \<noteq> 8" "ch \<noteq> 12" "ch \<noteq> 10" "ch \<noteq> 13" "ch \<noteq> 9"
    | (astral) "0x10000 \<le> ch"
    by linarith
  then show ?thesis
  proof cases
    case special
    then show ?thesis
      by (elim disjE) (simp_all add: escape_char_def backslash_def)
  next
    case plain
    then show ?thesis
      by (simp add: escape_char_def)
  next
    case bmp
    then have e: "escape_char ch = hex4 ch"
      by (auto simp: escape_char_def)
    show ?thesis
      unfolding e scan_hex4 [OF bmp(2)] using assms(2) by (auto simp: is_surrogate_def)
  next
    case astral
    define n where "n = ch - 0x10000"
    have n: "n < 1048576" and ch: "ch = 0x10000 + n"
      using assms(1) astral by (simp_all add: n_def)
    have e: "escape_char ch = hex4 (0xD800 + n div 1024) @ hex4 (0xDC00 + n mod 1024)"
      using astral surrogates(1,2) [OF n]
      by (simp add: escape_char_def n_def Let_def)
    have d: "n div 1024 < 1024" using n by simp
    let ?lo = "hex4 (0xDC00 + n mod 1024) @ r"
    have m: "n mod 1024 \<le> 1023"
      using mod_less_divisor [of 1024 n] by linarith
    have hi: "0xD800 + n div 1024 < 65536" and lo: "0xDC00 + n mod 1024 < 65536"
      using d m by simp_all
    have "scanstring (hex4 (0xD800 + n div 1024) @ ?lo)
        = cons_str (0x10000 + (push_bit 10 (n div 1024) OR (n mod 1024))) (scanstring r)"
      unfolding scan_hex4 [OF hi] take_hex4 decode_hex4 [OF lo] drop_hex4
      using d m by simp
    then show ?thesis
      unfolding e by (simp add: surrogates(3) [OF n] ch)
  qed
qed

lemma scan_escaped:
  "is_text v \<Longrightarrow> scanstring (concat (map escape_char v) @ 34 # r) = Some (v, r)"
  by (induction v) (simp_all add: is_text_def scan_escape_char cons_str_def)

lemma scan_encoded:
  "is_text v \<Longrightarrow> scanstring (tl (encode_basestring_ascii v) @ r) = Some (v, r)"
  by (simp add: encode_basestring_ascii_def scan_escaped)


lemma is_text_ascii: "is_text (ascii k)"
proof -
  have b: "of_char c < (256::nat)" for c
    using mod_less_divisor [of 256 "of_char c"] by (simp del: mod_less_divisor)
  have "of_char c < (0x110000::nat) \<and> \<not> is_surrogate (of_char c)" for c
    using b [of c] unfolding is_surrogate_def by linarith
  then show ?thesis
    by (simp add: is_text_def ascii_def list_all_iff)
qed

lemma encoded_cons:
  "encode_basestring_ascii v @ r = 34 # tl (encode_basestring_ascii v) @ r"
  by (simp add: encode_basestring_ascii_def)

lemma json_pairs_last:
  assumes "is_text v"
  shows "json_pairs (tl (encode_basestring_ascii (ascii k)) @ ascii '': ''
           @ encode_basestring_ascii v @ ascii ''}'' @ r) = Some ([(ascii k, v)], r)"
proof -
  have a: "ascii '': '' @ encode_basestring_ascii v @ ascii ''}'' @ r
      = 58 # 32 # 34 # tl (encode_basestring_ascii v) @ 125 # r"
    by (subst encoded_cons) (simp add: ascii_def)
  show ?thesis
    unfolding a
    by (subst json_pairs.simps)
      (simp add: scan_encoded [OF is_text_ascii] scan_encoded [OF assms] skip_ws_def)
qed

lemma json_pairs_more:
  assumes "is_text v"
  shows "json_pairs (tl (encode_basestring_ascii (ascii k)) @ ascii '': ''
           @ encode_basestring_ascii v @ ascii '', '' @ 34 # r)
         = (case json_pairs r of None \<Rightarrow> None
            | Some (kvs, r') \<Rightarrow> Some ((ascii k, v) # kvs, r'))"
proof -
  have a: "ascii '': '' @ encode_basestring_ascii v @ ascii '', '' @ 34 # r
      = 58 # 32 # 34 # tl (encode_basestring_ascii v) @ 44 # 32 # 34 # r"
    by (subst encoded_cons) (simp add: ascii_def)
  show ?thesis
    unfolding a
    by (subst json_pairs.simps)
      (simp add: scan_encoded [OF is_text_ascii] scan_encoded [OF assms] skip_ws_def)
qed

lemma json_pairs_items:
  "d \<noteq> [] \<Longrightarrow> list_all (\<lambda>(k, v). is_text v) d \<Longrightarrow>
   json_pairs (tl (json_items d) @ ascii ''}'' @ r) = Some (map (\<lambda>(k, v). (ascii k, v)) d, r)"
proof (induction d rule: json_items.induct)
  case 1
  then show ?case by simp
next
  case (2 k v)
  have eq: "tl (json_items [(k, v)]) @ ascii ''}'' @ r
      = tl (encode_basestring_ascii (ascii k)) @ ascii '': ''
           @ encode_basestring_ascii v @ ascii ''}'' @ r"
    by (simp add: encode_basestring_ascii_def)
  from 2 have "is_text v" by simp
  then show ?case
    unfolding eq by (simp add: json_pairs_last)
next
  case (3 k v kv kvs)
  have eq: "tl (json_items ((k, v) # kv # kvs)) @ ascii ''}'' @ r
      = tl (encode_basestring_ascii (ascii k)) @ ascii '': ''
           @ encode_basestring_ascii v @ ascii '', ''
           @ 34 # (tl (json_items (kv # kvs)) @ ascii ''}'' @ r)"
    by (cases kv; cases kvs) (auto simp: encode_basestring_ascii_def)
  from 3 have v: "is_text v" and rest: "list_all (\<lambda>(k, v). is_text v) (kv # kvs)"
    by simp_all
  have ih: "json_pairs (tl (json_items (kv # kvs)) @ ascii ''}'' @ r)
      = Some (map (\<lambda>(k, v). (ascii k, v)) (kv # kvs), r)"
    using 3 rest by simp
  show ?case
    unfolding eq json_pairs_more [OF v] ih by simp
qed

lemma json_loads_dumps:
  "list_all (\<lambda>(k, v). is_text v) d \<Longrightarrow>
   json_loads (json_dumps d) = Some (map (\<lambda>(k, v). (ascii k, v)) d)"
proof (cases d)
  case Nil
  then show ?thesis
    by (simp add: json_loads_def json_dumps_def skip_ws_def ascii_def)
next
  case (Cons kv kvs)
  assume t: "list_all (\<lambda>(k, v). is_text v) d"
  have "json_items d = 34 # tl (json_items d)"
    unfolding Cons by (cases kv; cases kvs) (auto simp: encode_basestring_ascii_def)
  then have "json_dumps d = 123 # 34 # (tl (json_items d) @ ascii ''}'' @ [])"
    by (simp add: json_dumps_def ascii_def)
  then show ?thesis
    using json_pairs_items [of d "[]"] t Cons
    by (simp add: json_loads_def skip_ws_def del: json_items.simps)
qed

section \<open>What a call of \<open>send_msg\<close> does\<close>

lemma send_msg_unfold:
  "send_msg net a (c, log) =
     (let h = (headers c)(''Title'' \<mapsto> Some (title a), ''Click'' \<mapsto> link_url a);
          h = (case tags a of Some t \<Rightarrow> h(''Tags'' \<mapsto> Some t) | None \<Rightarrow> h);
          h = (case icon a of Some i \<Rightarrow> h(''Icon'' \<mapsto> Some i) | None \<Rightarrow> h);
          req = \<lparr>post_url = server_url c, post_headers = h,
                 post_data = json_dumps
                   [(''topic'', case topic a of None \<Rightarrow> default_topic c | Some t \<Rightarrow> t),
                    (''message'', message a)],
                 post_timeout = timeout a\<rparr>
      in (map_sum id (\<lambda>r. ()) (net log req), c\<lparr>headers := h\<rparr>, log @ [req]))"
proof (cases "tags a"; cases "icon a")
qed (simp_all add: send_msg_def requests_post_def Let_def split: sum.split)

lemma send_msg_headers:
  "headers (fst (snd (send_msg net a (c, log)))) k =
     (if k = ''Icon'' \<and> icon a \<noteq> None then Some (icon a)
      else if k = ''Tags'' \<and> tags a \<noteq> None then Some (tags a)
      else if k = ''Click'' then Some (link_url a)
      else if k = ''Title'' then Some (Some (title a))
      else headers c k)"
  by (cases "tags a"; cases "icon a") (simp_all add: send_msg_unfold Let_def)

lemma send_msg_fields:
  "server_url (fst (snd (send_msg net a (c, log)))) = server_url c"
  "default_topic (fst (snd (send_msg net a (c, log)))) = default_topic c"
  "auth (fst (snd (send_msg net a (c, log)))) = auth c"
  by (simp_all add: send_msg_unfold Let_def)

lemma send_msg_log:
  "snd (snd (send_msg net a (c, log))) =
     log @ [\<lparr>post_url = server_url c,
             post_headers = headers (fst (snd (send_msg net a (c, log)))),
             post_data = json_dumps
               [(''topic'', case topic a of None \<Rightarrow> default_topic c | Some t \<Rightarrow> t),
                (''message'', message a)],
             post_timeout = timeout a\<rparr>]"
  by (simp add: send_msg_unfold Let_def)

lemma send_msg_result:
  "fst (send_msg net a (c, log)) =
     map_sum id (\<lambda>r. ()) (net log (last (snd (snd (send_msg net a (c, log))))))"
  by (simp add: send_msg_unfold Let_def)


lemma send_msg_step:
  fixes net :: "'e network"
  shows "\<exists>r c1 req1. send_msg net a (c, log) = (r, c1, log @ [req1])
    \<and> post_headers req1 = headers c1
    \<and> (\<forall>k. headers c1 k =
     (if k = ''Icon'' \<and> icon a \<noteq> None then Some (icon a)
      else if k = ''Tags'' \<and> tags a \<noteq> None then Some (tags a)
      else if k = ''Click'' then Some (link_url a)
      else if k = ''Title'' then Some (Some (title a))
      else headers c k))"
proof -
  let ?S = "send_msg net a (c, log)"
  let ?req = "\<lparr>post_url = server_url c,
             post_headers = headers (fst (snd ?S)),
             post_data = json_dumps
               [(''topic'', case topic a of None \<Rightarrow> default_topic c | Some t \<Rightarrow> t),
                (''message'', message a)],
             post_timeout = timeout a\<rparr>"
  have "?S = (fst ?S, fst (snd ?S), snd (snd ?S))" by simp
  then have 1: "?S = (fst ?S, fst (snd ?S), log @ [?req])"
    by (simp only: send_msg_log [symmetric])
  have 2: "post_headers ?req = headers (fst (snd ?S))" by simp
  have 3: "\<forall>k. headers (fst (snd ?S)) k =
     (if k = ''Icon'' \<and> icon a \<noteq> None then Some (icon a)
      else if k = ''Tags'' \<and> tags a \<noteq> None then Some (tags a)
      else if k = ''Click'' then Some (link_url a)
      else if k = ''Title'' then Some (Some (title a))
      else headers c k)"
    by (rule allI) (rule send_msg_headers)
  from 1 2 3 show ?thesis by blast
qed

lemma send_msg_untouched:
  fixes net :: "'e network"
  assumes "k \<noteq> ''Title''" "k \<noteq> ''Click''"
    "k = ''Tags'' \<longrightarrow> tags a = None" "k = ''Icon'' \<longrightarrow> icon a = None"
  shows "headers (fst (snd (send_msg net a (c, log)))) k = headers c k"
  unfolding send_msg_headers
  using assms by (cases "k = ''Icon''"; cases "k = ''Tags''") simp_all

lemma send_all_requests:
  fixes net :: "'e network"
  assumes "\<forall>a\<in>set calls. k \<noteq> ''Title'' \<and> k \<noteq> ''Click''
             \<and> (k = ''Tags'' \<longrightarrow> tags a = None) \<and> (k = ''Icon'' \<longrightarrow> icon a = None)"
  shows "headers (fst (snd (send_all net calls (c, log)))) k = headers c k
       \<and> (\<exists>news. snd (snd (send_all net calls (c, log))) = log @ news
             \<and> length news = length calls
             \<and> (\<forall>req\<in>set news. post_headers req k = headers c k))"
  using assms
proof (induction calls arbitrary: c log)
  case Nil
  then show ?case by simp
next
  case (Cons a as)
  obtain r c1 req1 where s: "send_msg net a (c, log) = (r, c1, log @ [req1])"
    and p: "post_headers req1 = headers c1"
    using send_msg_step [of net a c log] by blast
  from Cons.prems have ka: "k \<noteq> ''Title''" "k \<noteq> ''Click''"
    "k = ''Tags'' \<longrightarrow> tags a = None" "k = ''Icon'' \<longrightarrow> icon a = None"
    by simp_all
  have h: "headers c1 k = headers c k"
    using send_msg_untouched [OF ka, of net c log] by (simp add: s)
  from Cons.prems have rest: "\<forall>a\<in>set as. k \<noteq> ''Title'' \<and> k \<noteq> ''Click''
             \<and> (k = ''Tags'' \<longrightarrow> tags a = None) \<and> (k = ''Icon'' \<longrightarrow> icon a = None)"
    by simp
  obtain news where ih1: "headers (fst (snd (send_all net as (c1, log @ [req1])))) k = headers c1 k"
    and ih2: "snd (snd (send_all net as (c1, log @ [req1]))) = (log @ [req1]) @ news"
    and ih3: "length news = length as"
    and ih4: "\<forall>req\<in>set news. post_headers req k = headers c1 k"
    using Cons.IH [OF rest, of c1 "log @ [req1]"] by blast
  have e: "snd (send_all net (a # as) (c, log)) = snd (send_all net as (c1, log @ [req1]))"
    by (simp add: s split: prod.split)
  have "snd (snd (send_all net as (c1, log @ [req1]))) = log @ (req1 # news)
      \<and> length (req1 # news) = length (a # as)
      \<and> (\<forall>req\<in>set (req1 # news). post_headers req k = headers c k)"
    using ih2 ih3 ih4 h p by simp
  then have "\<exists>news. snd (snd (send_all net as (c1, log @ [req1]))) = log @ news
      \<and> length news = length (a # as)
      \<and> (\<forall>req\<in>set news. post_headers req k = headers c k)"
    by (rule exI)
  moreover have "headers (fst (snd (send_all net as (c1, log @ [req1])))) k = headers c k"
    using ih1 h by simp
  ultimately show ?case
    unfolding e by (rule conjI [rotated])
qed

lemma send_all_authorization:
  fixes net :: "'e network"
  shows "\<forall>req\<in>set (snd (snd (send_all net calls (c, [])))).
           post_headers req ''Authorization'' = headers c ''Authorization''"
  using send_all_requests [of calls "''Authorization''" net c "[]"] by auto

text \<open>
  Claim C10. A call of \<open>send_msg\<close> leaves \<open>server_url\<close>, \<open>default_topic\<close> and the
  stored credentials as they were, and in the headers dictionary it writes no key other
  than \<open>Title\<close>, \<open>Click\<close>, \<open>Tags\<close> and \<open>Icon\<close>: every other entry, \<open>Authorization\<close>
  among them, is present with the same value or absent exactly as before the call,
  whether the HTTP call raised or returned.
\<close>

theorem send_msg_preserves_config:
  fixes net :: "'e network"
  assumes "send_msg net a (c, log) = (r, c', log')"
  shows "server_url c' = server_url c \<and> default_topic c' = default_topic c
       \<and> auth c' = auth c
       \<and> headers c' ''Authorization'' = headers c ''Authorization''
       \<and> (\<forall>k. k \<notin> {''Title'', ''Click'', ''Tags'', ''Icon''} \<longrightarrow> headers c' k = headers c k)"
proof -
  have c': "c' = fst (snd (send_msg net a (c, log)))"
    using assms by simp
  show ?thesis
    unfolding c' by (simp add: send_msg_fields send_msg_headers)
qed

theorem send_msg_preserves_config_witness:
  "server_url (fst (snd (send_msg ok_net tagged (bob_client, [])))) = ascii ''https://ntfy.sh/''
   \<and> default_topic (fst (snd (send_msg ok_net tagged (bob_client, [])))) = ascii ''alerts''
   \<and> headers (fst (snd (send_msg ok_net tagged (bob_client, [])))) ''Authorization''
       = Some (Some (ascii ''Basic Ym9iOnNlY3JldA==''))
   \<and> headers (fst (snd (send_msg ok_net tagged (bob_client, [])))) ''User-Agent'' = None"
  using send_msg_preserves_config [of ok_net tagged bob_client "[]"
      "fst (send_msg ok_net tagged (bob_client, []))"
      "fst (snd (send_msg ok_net tagged (bob_client, [])))"
      "snd (snd (send_msg ok_net tagged (bob_client, [])))"]
  by (simp add: bob_client_def)

text \<open>
  Claim C8. Every call of \<open>send_msg\<close> writes the \<open>Click\<close> entry: with the link when
  \<open>link_url\<close> is given, and with the value \<open>None\<close> when it is not, so that the key is in
  the dictionary either way. It writes \<open>Title\<close> with the title argument, the empty
  string included. The dictionary handed to \<open>requests.post\<close> holds the same entries.
\<close>

theorem send_msg_click_title:
  fixes net :: "'e network"
  assumes "send_msg net a (c, log) = (r, c', log')"
  shows "(link_url a = None \<longrightarrow>
            headers c' ''Click'' = Some None \<and> ''Click'' \<in> dom (headers c')
            \<and> post_headers (last log') ''Click'' = Some None)
       \<and> (\<forall>l. link_url a = Some l \<longrightarrow>
            headers c' ''Click'' = Some (Some l)
            \<and> post_headers (last log') ''Click'' = Some (Some l))
       \<and> headers c' ''Title'' = Some (Some (title a))
       \<and> post_headers (last log') ''Title'' = Some (Some (title a))"
proof -
  obtain r1 c1 req1 where s: "send_msg net a (c, log) = (r1, c1, log @ [req1])"
    and p: "post_headers req1 = headers c1"
    using send_msg_step [of net a c log] by blast
  have c': "c' = c1" and l: "last log' = req1"
    using assms s by auto
  have "headers c1 = headers (fst (snd (send_msg net a (c, log))))"
    by (simp add: s)
  then have "headers c1 ''Click'' = Some (link_url a)"
    and "headers c1 ''Title'' = Some (Some (title a))"
    by (simp_all add: send_msg_headers)
  then show ?thesis
    unfolding c' l p by auto
qed

theorem send_msg_click_title_witness:
  "headers (fst (snd (send_msg ok_net disk_full (alerts_client, [])))) ''Click'' = Some None
   \<and> post_headers (last (snd (snd (send_msg ok_net disk_full (alerts_client, []))))) ''Click''
       = Some None
   \<and> headers (fst (snd (send_msg ok_net tagged (alerts_client, [])))) ''Click''
       = Some (Some (ascii ''https://example.org/''))
   \<and> headers (fst (snd (send_msg ok_net tagged (alerts_client, [])))) ''Title'' = Some (Some [])"
  using
    send_msg_click_title [of ok_net disk_full alerts_client "[]"
      "fst (send_msg ok_net disk_full (alerts_client, []))"
      "fst (snd (send_msg ok_net disk_full (alerts_client, [])))"
      "snd (snd (send_msg ok_net disk_full (alerts_client, [])))"]
    send_msg_click_title [of ok_net tagged alerts_client "[]"
      "fst (send_msg ok_net tagged (alerts_client, []))"
      "fst (snd (send_msg ok_net tagged (alerts_client, [])))"
      "snd (snd (send_msg ok_net tagged (alerts_client, [])))"]
  by (simp add: disk_full_def tagged_def)

lemma send_msg_body:
  fixes net :: "'e network"
  assumes "send_msg net a (c, log) = (r, c', log')"
  shows "post_data (last log') =
     json_dumps [(''topic'', case topic a of None \<Rightarrow> default_topic c | Some t \<Rightarrow> t),
                 (''message'', message a)]"
proof -
  have "log' = snd (snd (send_msg net a (c, log)))"
    using assms by simp
  then show ?thesis
    by (simp add: send_msg_log)
qed

lemma json_loads_body:
  assumes "is_text tp" and "is_text m"
  shows "json_loads (json_dumps [(''topic'', tp), (''message'', m)])
       = Some [(ascii ''topic'', tp), (ascii ''message'', m)]"
  using json_loads_dumps [of "[(''topic'', tp), (''message'', m)]"] assms by simp

lemma json_field_body:
  assumes "is_text tp" and "is_text m"
  shows "json_field (json_dumps [(''topic'', tp), (''message'', m)]) ''topic'' = Some tp"
    and "json_field (json_dumps [(''topic'', tp), (''message'', m)]) ''message'' = Some m"
  unfolding json_field_def json_loads_body [OF assms]
  by (simp_all add: ascii_def)

text \<open>
  Claim C3. The body of every request is the JSON text of a dictionary whose \<open>topic\<close>
  is the topic argument when one is given and the client's default topic when it is
  \<open>None\<close>. Read back with \<open>json.loads\<close>, the field \<open>topic\<close> has that value, for
  a topic and a message that are Unicode text (strings without surrogate code points).
\<close>

theorem send_msg_body_topic:
  fixes net :: "'e network"
  assumes "send_msg net a (c, log) = (r, c', log')"
  shows "(\<forall>t. topic a = Some t \<longrightarrow>
            post_data (last log') = json_dumps [(''topic'', t), (''message'', message a)]
            \<and> (is_text t \<and> is_text (message a) \<longrightarrow>
                 json_field (post_data (last log')) ''topic'' = Some t))
       \<and> (topic a = None \<longrightarrow>
            post_data (last log')
              = json_dumps [(''topic'', default_topic c), (''message'', message a)]
            \<and> (is_text (default_topic c) \<and> is_text (message a) \<longrightarrow>
                 json_field (post_data (last log')) ''topic'' = Some (default_topic c)))"
  unfolding send_msg_body [OF assms]
  by (cases "topic a") (simp_all add: json_field_body)

theorem send_msg_body_topic_witness:
  \<open>post_data (last (snd (snd (send_msg ok_net disk_full (alerts_client, [])))))
     = ascii ''{"topic": "alerts", "message": "90% used"}''
   \<and> json_field (post_data (last (snd (snd (send_msg ok_net disk_full (alerts_client, []))))))
         ''topic'' = Some (ascii ''alerts'')
   \<and> json_field (post_data (last (snd (snd (send_msg ok_net tagged (alerts_client, []))))))
         ''topic'' = Some (ascii ''jobs'')\<close>
proof -
  let ?S = "send_msg ok_net disk_full (alerts_client, [])"
  let ?T = "send_msg ok_net tagged (alerts_client, [])"
  have s: "?S = (fst ?S, fst (snd ?S), snd (snd ?S))"
    and t: "?T = (fst ?T, fst (snd ?T), snd (snd ?T))"
    by simp_all
  have a: "topic disk_full = None" "message disk_full = ascii ''90% used''"
    "topic tagged = Some (ascii ''jobs'')" "message tagged = ascii ''backup done''"
    "default_topic alerts_client = ascii ''alerts''"
    by (simp_all add: disk_full_def tagged_def alerts_client_def)
  have d: \<open>json_dumps [(''topic'', ascii ''alerts''), (''message'', ascii ''90% used'')]
      = ascii ''{"topic": "alerts", "message": "90% used"}''\<close>
    by (simp add: json_dumps_def encode_basestring_ascii_def escape_char_def ascii_def)
  from send_msg_body_topic [OF s] a d is_text_ascii
  have 1: \<open>post_data (last (snd (snd ?S))) = ascii ''{"topic": "alerts", "message": "90% used"}''\<close>
    and 2: "json_field (post_data (last (snd (snd ?S)))) ''topic'' = Some (ascii ''alerts'')"
    by metis+
  from send_msg_body_topic [OF t] a is_text_ascii
  have 3: "json_field (post_data (last (snd (snd ?T)))) ''topic'' = Some (ascii ''jobs'')"
    by metis
  from 1 2 3 show ?thesis by blast
qed


text \<open>
  Claim C4. The body of every request is the JSON text of a dictionary with the two
  entries \<open>topic\<close> and \<open>message\<close>, in this order, and \<open>message\<close> holds the message
  argument. Read back with \<open>json.loads\<close>, the body has exactly these two keys and the
  field \<open>message\<close> is the message argument, for a topic and a message that are Unicode
  text (strings without surrogate code points).
\<close>

theorem send_msg_body_keys:
  fixes net :: "'e network"
  assumes "send_msg net a (c, log) = (r, c', log')"
  shows "post_data (last log') =
           json_dumps [(''topic'', case topic a of None \<Rightarrow> default_topic c | Some t \<Rightarrow> t),
                       (''message'', message a)]
       \<and> (is_text (case topic a of None \<Rightarrow> default_topic c | Some t \<Rightarrow> t)
            \<and> is_text (message a) \<longrightarrow>
          json_loads (post_data (last log')) =
            Some [(ascii ''topic'', case topic a of None \<Rightarrow> default_topic c | Some t \<Rightarrow> t),
                  (ascii ''message'', message a)]
          \<and> json_field (post_data (last log')) ''message'' = Some (message a))"
  unfolding send_msg_body [OF assms]
  by (simp add: json_loads_body json_field_body)

theorem send_msg_body_keys_witness:
  "json_loads (post_data (last (snd (snd (send_msg ok_net disk_full (alerts_client, []))))))
     = Some [(ascii ''topic'', ascii ''alerts''), (ascii ''message'', ascii ''90% used'')]
   \<and> json_field (post_data (last (snd (snd (send_msg ok_net disk_full (alerts_client, []))))))
         ''message'' = Some (ascii ''90% used'')"
proof -
  let ?S = "send_msg ok_net disk_full (alerts_client, [])"
  have s: "?S = (fst ?S, fst (snd ?S), snd (snd ?S))"
    by simp
  have a: "(case topic disk_full of None \<Rightarrow> default_topic alerts_client | Some t \<Rightarrow> t)
      = ascii ''alerts''" "message disk_full = ascii ''90% used''"
    by (simp_all add: disk_full_def alerts_client_def)
  show ?thesis
    using send_msg_body_keys [OF s] is_text_ascii unfolding a by blast
qed

text \<open>
  Claim C5, as stated, fails for a response with a status outside 200..299:
  \<open>requests.post\<close> returns such a response instead of raising, \<open>send_msg\<close> does not
  look at it, and the call returns \<open>None\<close> to the caller like any other. Here the
  server answers 500 and the result is not an error.
\<close>

theorem send_msg_status_500_counterexample:
  "server_error_net [] (last (snd (snd (send_msg server_error_net disk_full (alerts_client, [])))))
     = Inr \<lparr>status_code = 500\<rparr>
   \<and> fst (send_msg server_error_net disk_full (alerts_client, [])) = Inr ()"
  by (simp add: send_msg_result server_error_net_def)

text \<open>
  Claim C5, amended. Every call of \<open>send_msg\<close> makes exactly one HTTP call. When that
  call raises (network error, timeout), \<open>send_msg\<close> raises the same exception,
  unchanged; when it returns a response, whatever its status, \<open>send_msg\<close> returns
  normally. Nothing is retried.
\<close>

theorem send_msg_propagates:
  fixes net :: "'e network"
  assumes "send_msg net a (c, log) = (r, c', log')"
  shows "\<exists>req. log' = log @ [req]
           \<and> (\<forall>e. net log req = Inl e \<longrightarrow> r = Inl e)
           \<and> (\<forall>resp. net log req = Inr resp \<longrightarrow> r = Inr ())"
proof -
  obtain r1 c1 req1 where s: "send_msg net a (c, log) = (r1, c1, log @ [req1])"
    using send_msg_step [of net a c log] by blast
  have l: "log' = log @ [req1]"
    using assms s by simp
  have "last (snd (snd (send_msg net a (c, log)))) = req1"
    by (simp add: s)
  then have "fst (send_msg net a (c, log)) = map_sum id (\<lambda>r. ()) (net log req1)"
    using send_msg_result [of net a c log] by simp
  then have "r = map_sum id (\<lambda>r. ()) (net log req1)"
    using assms by simp
  then show ?thesis
    using l by auto
qed

theorem send_msg_propagates_witness:
  "fst (send_msg timeout_net disk_full (alerts_client, [])) = Inl Timeout
   \<and> length (snd (snd (send_msg timeout_net disk_full (alerts_client, [])))) = 1
   \<and> fst (send_msg ok_net disk_full (alerts_client, [])) = Inr ()"
proof -
  let ?S = "send_msg timeout_net disk_full (alerts_client, [])"
  let ?T = "send_msg ok_net disk_full (alerts_client, [])"
  have s: "?S = (fst ?S, fst (snd ?S), snd (snd ?S))"
    and t: "?T = (fst ?T, fst (snd ?T), snd (snd ?T))"
    by simp_all
  from send_msg_propagates [OF s]
  have 1: "fst ?S = Inl Timeout \<and> length (snd (snd ?S)) = 1"
    by (auto simp: timeout_net_def)
  from send_msg_propagates [OF t]
  have 2: "fst ?T = Inr ()"
    by (auto simp: ok_net_def)
  from 1 2 show ?thesis by blast
qed

section \<open>The constructor\<close>

lemma unat_lt_64: "take_bit 6 x = x \<Longrightarrow> unat (x :: 8 word) < 64"
proof -
  assume "take_bit 6 x = x"
  then have "unat x = take_bit 6 (unat x)"
    by (metis unsigned_take_bit_eq)
  also have "\<dots> < 2 ^ 6"
    by (rule take_bit_nat_less_exp)
  finally show ?thesis by simp
qed

lemma b64_indices:
  fixes a b c :: "8 word"
  shows "unat (drop_bit 2 a) < 64"
    and "unat (push_bit 4 (a AND 0x03) OR drop_bit 4 b) < 64"
    and "unat (push_bit 2 (b AND 0x0F) OR drop_bit 6 c) < 64"
    and "unat (c AND 0x3F) < 64"
    and "unat (push_bit 2 (b AND 0x0F)) < 64"
    and "unat (push_bit 4 (a AND 0x03)) < 64"
proof -
  have m: "(0x03 :: 8 word) = mask 2" "(0x0F :: 8 word) = mask 4" "(0x3F :: 8 word) = mask 6"
    by (simp_all add: mask_eq_exp_minus_1)
  show "unat (drop_bit 2 a) < 64"
    by (rule unat_lt_64, rule bit_word_eqI) (auto simp: bit_simps dest: bit_imp_le_length)
  show "unat (push_bit 4 (a AND 0x03) OR drop_bit 4 b) < 64"
    unfolding m by (rule unat_lt_64, rule bit_word_eqI) (auto simp: bit_simps dest: bit_imp_le_length)
  show "unat (push_bit 2 (b AND 0x0F) OR drop_bit 6 c) < 64"
    unfolding m by (rule unat_lt_64, rule bit_word_eqI) (auto simp: bit_simps dest: bit_imp_le_length)
  show "unat (c AND 0x3F) < 64"
    unfolding m by (rule unat_lt_64, rule bit_word_eqI) (auto simp: bit_simps dest: bit_imp_le_length)
  show "unat (push_bit 2 (b AND 0x0F)) < 64"
    unfolding m by (rule unat_lt_64, rule bit_word_eqI) (auto simp: bit_simps dest: bit_imp_le_length)
  show "unat (push_bit 4 (a AND 0x03)) < 64"
    unfolding m by (rule unat_lt_64, rule bit_word_eqI) (auto simp: bit_simps dest: bit_imp_le_length)
qed

lemma b64_table_ascii: "list_all (\<lambda>b. b < 0x80) b64_table"
  by (simp add: b64_table_def ascii_bytes_def)

lemma b64_digit_ascii: "unat i < 64 \<Longrightarrow> b64_digit i < 0x80"
proof -
  assume "unat i < 64"
  moreover have "length b64_table = 64"
    by (simp add: b64_table_def ascii_bytes_def)
  ultimately show ?thesis
    using b64_table_ascii by (simp add: b64_digit_def list_all_length)
qed

lemma b64_digits_ascii:
  fixes a b c :: "8 word"
  shows "b64_digit (drop_bit 2 a) < 0x80"
    and "b64_digit (push_bit 4 (a AND 0x03) OR drop_bit 4 b) < 0x80"
    and "b64_digit (push_bit 2 (b AND 0x0F) OR drop_bit 6 c) < 0x80"
    and "b64_digit (c AND 0x3F) < 0x80"
    and "b64_digit (push_bit 2 (b AND 0x0F)) < 0x80"
    and "b64_digit (push_bit 4 (a AND 0x03)) < 0x80"
    and "b64_pad < 0x80"
  by (rule b64_digit_ascii, rule b64_indices)+ (simp add: b64_pad_def)

lemma b64encode_ascii: "list_all (\<lambda>b. b < 0x80) (b64encode bs)"
  by (induction bs rule: b64encode.induct)
    (simp_all only: b64encode.simps list.pred_inject list_all_append append.simps b64_digits_ascii simp_thms)

lemma b64encode_length: "length (b64encode bs) = 4 * ((length bs + 2) div 3)"
proof (induction bs rule: b64encode.induct)
  case (1 a b c rest)
  have "(length (a # b # c # rest) + 2) div 3 = Suc ((length rest + 2) div 3)"
    by simp
  then show ?case
    using 1 by simp
qed simp_all

lemma bytes_decode_ascii:
  "list_all (\<lambda>b. b < 0x80) bs \<Longrightarrow> bytes_decode bs = Inr (map unat bs)"
  by (induction bs) simp_all

lemma utf8_char_text: "ch < 0x110000 \<Longrightarrow> \<not> is_surrogate ch \<Longrightarrow> utf8_char ch \<noteq> None"
  by (simp add: utf8_char_def)

lemma str_encode_text: "is_text s \<Longrightarrow> \<exists>bs. str_encode s = Inr bs"
proof (induction s)
  case Nil
  then show ?case by simp
next
  case (Cons ch s)
  then obtain bs where "str_encode s = Inr bs"
    by (auto simp: is_text_def)
  moreover from Cons.prems obtain cs where "utf8_char ch = Some cs"
    using utf8_char_text [of ch] by (auto simp: is_text_def)
  ultimately show ?case by simp
qed

lemma init_anonymous:
  "u = None \<or> p = None \<Longrightarrow>
   NtfySender_init url tp u p =
     Inr \<lparr>server_url = url, default_topic = tp, auth = None, headers = Map.empty\<rparr>"
  by (cases u; cases p) (simp_all add: NtfySender_init_def set_auth_def set_header_def)

lemma init_credentials:
  "NtfySender_init url tp (Some u) (Some p) =
     (case str_encode (u @ ascii '':'' @ p) of
        Inl e \<Rightarrow> Inl e
      | Inr bs \<Rightarrow>
          Inr \<lparr>server_url = url, default_topic = tp,
               auth = Some (ascii ''Basic '' @ map unat (b64encode bs)),
               headers = [''Authorization'' \<mapsto>
                           Some (ascii ''Basic '' @ map unat (b64encode bs))]\<rparr>)"
  by (simp add: NtfySender_init_def set_auth_def set_header_def
      bytes_decode_ascii [OF b64encode_ascii] split: sum.split)

lemma is_text_credentials:
  "is_text u \<Longrightarrow> is_text p \<Longrightarrow> is_text (u @ ascii '':'' @ p)"
  using is_text_ascii [of "'':''"] by (simp add: is_text_def)

lemma map_all_const: "\<forall>x\<in>set xs. f x = v \<Longrightarrow> map f xs = replicate (length xs) v"
  by (induction xs) auto

lemma send_all_length:
  fixes net :: "'e network"
  shows "length (snd (snd (send_all net calls (c, log)))) = length log + length calls"
  using send_all_requests [of calls "''Authorization''" net c log] by auto

text \<open>
  Claim C1. When the constructor is given a username and a password, the client it
  builds stores under \<open>Authorization\<close> the string \<open>Basic\<close>, a space, and the base64
  text of the UTF-8 bytes of \<open>username:password\<close>, and every request any later call of
  \<open>send_msg\<close> makes on that client carries exactly this value. The constructor does
  build a client whenever both credentials are Unicode text.
\<close>

theorem init_authorization:
  fixes net :: "'e network"
  shows "(is_text u \<and> is_text p \<longrightarrow> (\<exists>c. NtfySender_init url tp (Some u) (Some p) = Inr c))
       \<and> (\<forall>c. NtfySender_init url tp (Some u) (Some p) = Inr c \<longrightarrow>
            (\<exists>bs. str_encode (u @ ascii '':'' @ p) = Inr bs
               \<and> headers c ''Authorization''
                   = Some (Some (ascii ''Basic '' @ map unat (b64encode bs)))
               \<and> (\<forall>req\<in>set (snd (snd (send_all net calls (c, [])))).
                     post_headers req ''Authorization''
                       = Some (Some (ascii ''Basic '' @ map unat (b64encode bs))))))"
proof (intro conjI impI allI)
  assume "is_text u \<and> is_text p"
  then obtain bs where "str_encode (u @ ascii '':'' @ p) = Inr bs"
    using str_encode_text [OF is_text_credentials] by blast
  then show "\<exists>c. NtfySender_init url tp (Some u) (Some p) = Inr c"
    by (simp add: init_credentials)
next
  fix c
  assume i: "NtfySender_init url tp (Some u) (Some p) = Inr c"
  then obtain bs where e: "str_encode (u @ ascii '':'' @ p) = Inr bs"
    by (auto simp: init_credentials split: sum.splits)
  have h: "headers c ''Authorization''
      = Some (Some (ascii ''Basic '' @ map unat (b64encode bs)))"
    using i by (auto simp: init_credentials e)
  show "\<exists>bs. str_encode (u @ ascii '':'' @ p) = Inr bs
      \<and> headers c ''Authorization'' = Some (Some (ascii ''Basic '' @ map unat (b64encode bs)))
      \<and> (\<forall>req\<in>set (snd (snd (send_all net calls (c, [])))).
            post_headers req ''Authorization''
              = Some (Some (ascii ''Basic '' @ map unat (b64encode bs))))"
    using e h send_all_authorization [of net calls c] by auto
qed

lemma bob_secret:
  "str_encode (ascii ''bob'' @ ascii '':'' @ ascii ''secret'')
     = Inr (ascii_bytes ''bob:secret'')"
  "map unat (b64encode (ascii_bytes ''bob:secret'')) = ascii ''Ym9iOnNlY3JldA==''"
  "ascii ''Basic '' @ ascii ''Ym9iOnNlY3JldA=='' = ascii ''Basic Ym9iOnNlY3JldA==''"
  by (simp_all add: ascii_def ascii_bytes_def utf8_char_def b64_digit_def b64_table_def
      b64_pad_def)

theorem init_authorization_witness:
  "NtfySender_init (ascii ''https://ntfy.sh/'') (ascii ''alerts'')
       (Some (ascii ''bob'')) (Some (ascii ''secret'')) = Inr bob_client
   \<and> headers bob_client ''Authorization'' = Some (Some (ascii ''Basic Ym9iOnNlY3JldA==''))
   \<and> map (\<lambda>req. post_headers req ''Authorization'')
         (snd (snd (send_all ok_net [tagged, disk_full] (bob_client, []))))
       = [Some (Some (ascii ''Basic Ym9iOnNlY3JldA=='')),
          Some (Some (ascii ''Basic Ym9iOnNlY3JldA==''))]"
proof -
  let ?log = "snd (snd (send_all ok_net [tagged, disk_full] (bob_client, [])))"
  have i: "NtfySender_init (ascii ''https://ntfy.sh/'') (ascii ''alerts'')
       (Some (ascii ''bob'')) (Some (ascii ''secret'')) = Inr bob_client"
    by (simp add: init_credentials bob_secret bob_client_def)
  from init_authorization [of "ascii ''bob''" "ascii ''secret''" "ascii ''https://ntfy.sh/''"
      "ascii ''alerts''" ok_net "[tagged, disk_full]"] i
  have h: "headers bob_client ''Authorization'' = Some (Some (ascii ''Basic Ym9iOnNlY3JldA==''))"
    and r: "\<forall>req\<in>set ?log.
      post_headers req ''Authorization'' = Some (Some (ascii ''Basic Ym9iOnNlY3JldA==''))"
    by (simp_all add: bob_secret)
  have "length ?log = 2"
    by (simp only: send_all_length) simp
  then have "map (\<lambda>req. post_headers req ''Authorization'') ?log
      = [Some (Some (ascii ''Basic Ym9iOnNlY3JldA=='')),
         Some (Some (ascii ''Basic Ym9iOnNlY3JldA==''))]"
    using map_all_const [OF r] by (simp add: numeral_2_eq_2)
  then show ?thesis
    using i h by simp
qed

text \<open>
  Claim C2. When exactly one of username and password is \<open>None\<close>, the constructor
  builds a client without credentials: the headers dictionary is empty, so it has no
  \<open>Authorization\<close> entry, and no request that later calls of \<open>send_msg\<close> make on this
  client has one.
\<close>

theorem init_one_credential_anonymous:
  fixes net :: "'e network"
  assumes "(u = None) \<noteq> (p = None)"
  shows "\<exists>c. NtfySender_init url tp u p = Inr c
           \<and> auth c = None \<and> headers c = Map.empty
           \<and> (\<forall>req\<in>set (snd (snd (send_all net calls (c, [])))).
                 post_headers req ''Authorization'' = None)"
proof -
  let ?c = "\<lparr>server_url = url, default_topic = tp, auth = None, headers = Map.empty\<rparr>"
  from assms have "u = None \<or> p = None" by blast
  then have "NtfySender_init url tp u p = Inr ?c"
    by (rule init_anonymous)
  moreover have "\<forall>req\<in>set (snd (snd (send_all net calls (?c, [])))).
      post_headers req ''Authorization'' = None"
    using send_all_authorization [of net calls ?c] by simp
  ultimately show ?thesis by simp
qed

theorem init_one_credential_anonymous_witness:
  "NtfySender_init (ascii ''https://ntfy.sh/'') (ascii ''alerts'') (Some (ascii ''bob'')) None
     = Inr alerts_client
   \<and> headers alerts_client ''Authorization'' = None
   \<and> map (\<lambda>req. post_headers req ''Authorization'')
         (snd (snd (send_all ok_net [tagged, disk_full] (alerts_client, []))))
       = [None, None]"
proof -
  let ?log = "snd (snd (send_all ok_net [tagged, disk_full] (alerts_client, [])))"
  have i: "NtfySender_init (ascii ''https://ntfy.sh/'') (ascii ''alerts'')
      (Some (ascii ''bob'')) None = Inr alerts_client"
    by (simp add: init_anonymous alerts_client_def)
  have "(Some (ascii ''bob'') = None) \<noteq> ((None :: pystr option) = None)"
    by simp
  from init_one_credential_anonymous [OF this, of "ascii ''https://ntfy.sh/''" "ascii ''alerts''"
      ok_net "[tagged, disk_full]"] i
  have h: "headers alerts_client ''Authorization'' = None"
    and r: "\<forall>req\<in>set ?log. post_headers req ''Authorization'' = None"
    by auto
  have "length ?log = 2"
    by (simp only: send_all_length) simp
  then have "map (\<lambda>req. post_headers req ''Authorization'') ?log = [None, None]"
    using map_all_const [OF r] by (simp add: numeral_2_eq_2)
  then show ?thesis
    using i h by simp
qed

text \<open>
  Claim C9. An empty string is a credential like any other: when both arguments are
  strings and one or both are empty, the constructor still stores
  \<open>Basic\<close> and the base64 text of \<open>username:password\<close> under \<open>Authorization\<close>; for two
  empty strings that is the base64 text of a single colon. A client built by the
  constructor has no \<open>Authorization\<close> entry only if an argument was \<open>None\<close>.
\<close>

theorem init_empty_credentials:
  "((u = [] \<or> p = []) \<and> is_text u \<and> is_text p \<longrightarrow>
      (\<exists>c bs. NtfySender_init url tp (Some u) (Some p) = Inr c
         \<and> str_encode (u @ ascii '':'' @ p) = Inr bs
         \<and> auth c = Some (ascii ''Basic '' @ map unat (b64encode bs))
         \<and> headers c ''Authorization''
             = Some (Some (ascii ''Basic '' @ map unat (b64encode bs)))))
   \<and> (\<exists>c. NtfySender_init url tp (Some []) (Some []) = Inr c
         \<and> headers c ''Authorization'' = Some (Some (ascii ''Basic Og=='')))
   \<and> (\<forall>c. NtfySender_init url tp ou op = Inr c \<longrightarrow>
         (headers c ''Authorization'' = None \<longleftrightarrow> ou = None \<or> op = None))"
proof (intro conjI impI)
  assume "(u = [] \<or> p = []) \<and> is_text u \<and> is_text p"
  then obtain bs where "str_encode (u @ ascii '':'' @ p) = Inr bs"
    using str_encode_text [OF is_text_credentials] by blast
  then show "\<exists>c bs. NtfySender_init url tp (Some u) (Some p) = Inr c
      \<and> str_encode (u @ ascii '':'' @ p) = Inr bs
      \<and> auth c = Some (ascii ''Basic '' @ map unat (b64encode bs))
      \<and> headers c ''Authorization''
          = Some (Some (ascii ''Basic '' @ map unat (b64encode bs)))"
    by (simp add: init_credentials)
next
  show "\<exists>c. NtfySender_init url tp (Some []) (Some []) = Inr c
      \<and> headers c ''Authorization'' = Some (Some (ascii ''Basic Og==''))"
    by (simp add: init_credentials ascii_def utf8_char_def b64_digit_def b64_table_def
        ascii_bytes_def b64_pad_def)
next
  show "\<forall>c. NtfySender_init url tp ou op = Inr c \<longrightarrow>
      (headers c ''Authorization'' = None \<longleftrightarrow> ou = None \<or> op = None)"
  proof (cases "ou = None \<or> op = None")
    case True
    then show ?thesis
      using init_anonymous [of ou op url tp] by auto
  next
    case False
    then obtain u' p' where "ou = Some u'" "op = Some p'"
      by auto
    then show ?thesis
      by (auto simp: init_credentials split: sum.splits)
  qed
qed

theorem init_empty_credentials_witness:
  "\<exists>c. NtfySender_init (ascii ''https://ntfy.sh/'') (ascii ''alerts'')
          (Some (ascii ''bob'')) (Some []) = Inr c
       \<and> headers c ''Authorization'' = Some (Some (ascii ''Basic Ym9iOg==''))"
proof -
  have e: "str_encode (ascii ''bob'' @ ascii '':'') = Inr (ascii_bytes ''bob:'')"
    "ascii ''Basic '' @ map unat (b64encode (ascii_bytes ''bob:'')) = ascii ''Basic Ym9iOg==''"
    by (simp_all add: ascii_def ascii_bytes_def utf8_char_def b64_digit_def b64_table_def
        b64_pad_def)
  have "(ascii ''bob'' = [] \<or> ([] :: pystr) = []) \<and> is_text (ascii ''bob'') \<and> is_text []"
    by (simp add: is_text_ascii) (simp add: is_text_def)
  with init_empty_credentials [where u = "ascii ''bob''" and p = "[]"
      and url = "ascii ''https://ntfy.sh/''" and tp = "ascii ''alerts''"
      and ou = None and op = None]
  obtain c bs where "NtfySender_init (ascii ''https://ntfy.sh/'') (ascii ''alerts'')
          (Some (ascii ''bob'')) (Some []) = Inr c"
    and "str_encode (ascii ''bob'' @ ascii '':'' @ []) = Inr bs"
    and "headers c ''Authorization'' = Some (Some (ascii ''Basic '' @ map unat (b64encode bs)))"
    by blast
  then show ?thesis
    by (auto simp: e)
qed

section \<open>Tags and icon across calls\<close>

lemma send_msg_request_headers:
  fixes net :: "'e network"
  assumes "send_msg net a (c, log) = (r, c', log')"
  shows "post_headers (last log') k = headers c' k"
    and "headers c' k =
     (if k = ''Icon'' \<and> icon a \<noteq> None then Some (icon a)
      else if k = ''Tags'' \<and> tags a \<noteq> None then Some (tags a)
      else if k = ''Click'' then Some (link_url a)
      else if k = ''Title'' then Some (Some (title a))
      else headers c k)"
    and "\<exists>req. log' = log @ [req]"
proof -
  obtain r1 c1 req1 where s: "send_msg net a (c, log) = (r1, c1, log @ [req1])"
    and p: "post_headers req1 = headers c1"
    and h: "\<forall>k. headers c1 k =
     (if k = ''Icon'' \<and> icon a \<noteq> None then Some (icon a)
      else if k = ''Tags'' \<and> tags a \<noteq> None then Some (tags a)
      else if k = ''Click'' then Some (link_url a)
      else if k = ''Title'' then Some (Some (title a))
      else headers c k)"
    using send_msg_step [of net a c log] by blast
  have e: "c' = c1" "log' = log @ [req1]"
    using assms s by auto
  show "post_headers (last log') k = headers c' k"
    unfolding e using p by simp
  show "headers c' k =
     (if k = ''Icon'' \<and> icon a \<noteq> None then Some (icon a)
      else if k = ''Tags'' \<and> tags a \<noteq> None then Some (tags a)
      else if k = ''Click'' then Some (link_url a)
      else if k = ''Title'' then Some (Some (title a))
      else headers c k)"
    unfolding e using h by blast
  show "\<exists>req. log' = log @ [req]"
    using e by blast
qed

lemma init_headers:
  assumes "NtfySender_init url tp u p = Inr c"
  shows "k \<noteq> ''Authorization'' \<Longrightarrow> headers c k = None"
proof (cases "u = None \<or> p = None")
  case True
  assume "k \<noteq> ''Authorization''"
  show ?thesis
    using assms init_anonymous [OF True, of url tp] by auto
next
  case False
  assume k: "k \<noteq> ''Authorization''"
  from False obtain u' p' where "u = Some u'" "p = Some p'"
    by auto
  then show ?thesis
    using assms k by (auto simp: init_credentials split: sum.splits)
qed

text \<open>
  Claim C6, as stated, fails on a client that has already sent a notification with
  tags or an icon: the entries stay in the client's dictionary, and a later call
  without tags and icon sends them again. Here the second request carries both, though
  its call gave neither.
\<close>

theorem send_msg_tags_icon_counterexample:
  "tags disk_full = None \<and> icon disk_full = None
   \<and> post_headers
        (last (snd (snd (send_msg ok_net disk_full
                           (snd (send_msg ok_net tagged (alerts_client, [])))))))
        ''Tags'' = Some (Some (ascii ''tada''))
   \<and> post_headers
        (last (snd (snd (send_msg ok_net disk_full
                           (snd (send_msg ok_net tagged (alerts_client, [])))))))
        ''Icon'' = Some (Some (ascii ''https://example.org/i.png''))"
proof -
  obtain r1 c1 log1 where s1: "send_msg ok_net tagged (alerts_client, []) = (r1, c1, log1)"
    using prod_cases3 by blast
  obtain r2 c2 log2 where s2: "send_msg ok_net disk_full (c1, log1) = (r2, c2, log2)"
    using prod_cases3 by blast
  have a: "tags disk_full = None" "icon disk_full = None"
    "tags tagged = Some (ascii ''tada'')"
    "icon tagged = Some (ascii ''https://example.org/i.png'')"
    by (simp_all add: disk_full_def tagged_def)
  have "headers c1 ''Tags'' = Some (Some (ascii ''tada''))"
    and "headers c1 ''Icon'' = Some (Some (ascii ''https://example.org/i.png''))"
    using send_msg_request_headers(2) [OF s1] a by simp_all
  then have "headers c2 ''Tags'' = Some (Some (ascii ''tada''))"
    and "headers c2 ''Icon'' = Some (Some (ascii ''https://example.org/i.png''))"
    using send_msg_request_headers(2) [OF s2] a by simp_all
  then have "post_headers (last log2) ''Tags'' = Some (Some (ascii ''tada''))"
    and "post_headers (last log2) ''Icon'' = Some (Some (ascii ''https://example.org/i.png''))"
    using send_msg_request_headers(1) [OF s2] by simp_all
  then show ?thesis
    using a by (simp add: s1 s2)
qed


text \<open>
  Claim C6, amended. A call of \<open>send_msg\<close> writes the \<open>Tags\<close> entry only if the tags
  argument is given, and then with that value; when it is \<open>None\<close> the call leaves the
  entry as it was before, and the request carries what the client's dictionary held:
  nothing (no entry, not a null one) on a client built by the constructor on which no
  earlier call gave tags, and the earlier value otherwise. The same holds for \<open>Icon\<close>
  and the icon argument.
\<close>

theorem send_msg_tags_icon:
  fixes net :: "'e network"
  assumes "send_msg net a (c, log) = (r, c', log')"
  shows "(\<forall>t. tags a = Some t \<longrightarrow> post_headers (last log') ''Tags'' = Some (Some t))
       \<and> (tags a = None \<longrightarrow>
            post_headers (last log') ''Tags'' = headers c ''Tags''
            \<and> headers c' ''Tags'' = headers c ''Tags'')
       \<and> (\<forall>i. icon a = Some i \<longrightarrow> post_headers (last log') ''Icon'' = Some (Some i))
       \<and> (icon a = None \<longrightarrow>
            post_headers (last log') ''Icon'' = headers c ''Icon''
            \<and> headers c' ''Icon'' = headers c ''Icon'')
       \<and> (\<forall>url tp u p calls c0 rs.
            NtfySender_init url tp u p = Inr c0
            \<and> send_all net calls (c0, []) = (rs, c, log) \<longrightarrow>
              ((\<forall>b\<in>set calls. tags b = None) \<and> tags a = None \<longrightarrow>
                 post_headers (last log') ''Tags'' = None)
              \<and> ((\<forall>b\<in>set calls. icon b = None) \<and> icon a = None \<longrightarrow>
                 post_headers (last log') ''Icon'' = None))"
proof -
  note p = send_msg_request_headers(1) [OF assms]
  note h = send_msg_request_headers(2) [OF assms]
  have 1: "\<forall>t. tags a = Some t \<longrightarrow> post_headers (last log') ''Tags'' = Some (Some t)"
    unfolding p h by simp
  have 2: "tags a = None \<longrightarrow>
            post_headers (last log') ''Tags'' = headers c ''Tags''
            \<and> headers c' ''Tags'' = headers c ''Tags''"
    unfolding p h by simp
  have 3: "\<forall>i. icon a = Some i \<longrightarrow> post_headers (last log') ''Icon'' = Some (Some i)"
    unfolding p h by simp
  have 4: "icon a = None \<longrightarrow>
            post_headers (last log') ''Icon'' = headers c ''Icon''
            \<and> headers c' ''Icon'' = headers c ''Icon''"
    unfolding p h by simp
  have 5: "post_headers (last log') ''Tags'' = None"
    if "NtfySender_init url tp u p = Inr c0" "send_all net calls (c0, []) = (rs, c, log)"
      "\<forall>b\<in>set calls. tags b = None" "tags a = None" for url tp u p calls c0 rs
  proof -
    have "headers (fst (snd (send_all net calls (c0, [])))) ''Tags'' = headers c0 ''Tags''"
      using send_all_requests [of calls "''Tags''" net c0 "[]"] that(3) by simp
    then have "headers c ''Tags'' = None"
      using that(1,2) init_headers [of url tp u p c0 "''Tags''"] by simp
    then show ?thesis
      using 2 that(4) by simp
  qed
  have 6: "post_headers (last log') ''Icon'' = None"
    if "NtfySender_init url tp u p = Inr c0" "send_all net calls (c0, []) = (rs, c, log)"
      "\<forall>b\<in>set calls. icon b = None" "icon a = None" for url tp u p calls c0 rs
  proof -
    have "headers (fst (snd (send_all net calls (c0, [])))) ''Icon'' = headers c0 ''Icon''"
      using send_all_requests [of calls "''Icon''" net c0 "[]"] that(3) by simp
    then have "headers c ''Icon'' = None"
      using that(1,2) init_headers [of url tp u p c0 "''Icon''"] by simp
    then show ?thesis
      using 4 that(4) by simp
  qed
  from 1 2 3 4 5 6 show ?thesis by blast
qed

theorem send_msg_tags_icon_witness:
  "post_headers (last (snd (snd (send_msg ok_net disk_full (alerts_client, []))))) ''Tags'' = None
   \<and> post_headers (last (snd (snd (send_msg ok_net disk_full (alerts_client, []))))) ''Icon''
       = None
   \<and> post_headers (last (snd (snd (send_msg ok_net tagged (alerts_client, []))))) ''Tags''
       = Some (Some (ascii ''tada''))"
proof -
  let ?S = "send_msg ok_net disk_full (alerts_client, [])"
  let ?T = "send_msg ok_net tagged (alerts_client, [])"
  have s: "?S = (fst ?S, fst (snd ?S), snd (snd ?S))"
    and t: "?T = (fst ?T, fst (snd ?T), snd (snd ?T))"
    by simp_all
  have i: "NtfySender_init (ascii ''https://ntfy.sh/'') (ascii ''alerts'') None None
      = Inr alerts_client"
    by (simp add: init_anonymous alerts_client_def)
  have n: "send_all ok_net [] (alerts_client, []) = ([], alerts_client, [])"
    by simp
  have a: "tags disk_full = None" "icon disk_full = None"
    "tags tagged = Some (ascii ''tada'')"
    by (simp_all add: disk_full_def tagged_def)
  from send_msg_tags_icon [OF s] i n a
  have 1: "post_headers (last (snd (snd ?S))) ''Tags'' = None"
    and 2: "post_headers (last (snd (snd ?S))) ''Icon'' = None"
    by (metis empty_iff list.set(1))+
  from send_msg_tags_icon [OF t] a
  have 3: "post_headers (last (snd (snd ?T))) ''Tags'' = Some (Some (ascii ''tada''))"
    by blast
  from 1 2 3 show ?thesis by blast
qed

text \<open>
  Claim C7. Every call of \<open>send_msg\<close> changes the client's own headers dictionary, and
  the change is still there after the call, whether it raised or returned: \<open>Title\<close>
  and \<open>Click\<close> hold what the call stored. After a call that gave tags, every request of
  the following calls carries the same \<open>Tags\<close> value as long as those calls give no
  tags themselves; likewise for \<open>Icon\<close>.
\<close>

theorem send_msg_headers_persist:
  fixes net :: "'e network"
  assumes "send_msg net a (c, log) = (r, c', log')"
  shows "headers c' ''Title'' = Some (Some (title a))
       \<and> headers c' ''Click'' = Some (link_url a)
       \<and> (\<forall>t. tags a = Some t \<and> (\<forall>b\<in>set calls. tags b = None) \<longrightarrow>
            headers c' ''Tags'' = Some (Some t)
            \<and> (\<forall>req\<in>set (drop (length log') (snd (snd (send_all net calls (c', log'))))).
                  post_headers req ''Tags'' = Some (Some t)))
       \<and> (\<forall>i. icon a = Some i \<and> (\<forall>b\<in>set calls. icon b = None) \<longrightarrow>
            headers c' ''Icon'' = Some (Some i)
            \<and> (\<forall>req\<in>set (drop (length log') (snd (snd (send_all net calls (c', log'))))).
                  post_headers req ''Icon'' = Some (Some i)))
       \<and> length (drop (length log') (snd (snd (send_all net calls (c', log'))))) = length calls"
proof -
  note h = send_msg_request_headers(2) [OF assms]
  have 1: "headers c' ''Title'' = Some (Some (title a))"
    and 2: "headers c' ''Click'' = Some (link_url a)"
    unfolding h by simp_all
  have 3: "headers c' ''Tags'' = Some (Some t)
      \<and> (\<forall>req\<in>set (drop (length log') (snd (snd (send_all net calls (c', log'))))).
            post_headers req ''Tags'' = Some (Some t))"
    if ta: "tags a = Some t" and nb: "\<forall>b\<in>set calls. tags b = None" for t
  proof -
    have t: "headers c' ''Tags'' = Some (Some t)"
      unfolding h using ta by simp
    obtain news where "snd (snd (send_all net calls (c', log'))) = log' @ news"
      and "\<forall>req\<in>set news. post_headers req ''Tags'' = headers c' ''Tags''"
      using send_all_requests [of calls "''Tags''" net c' log'] nb by auto
    then show ?thesis
      using t by simp
  qed
  have 4: "headers c' ''Icon'' = Some (Some i)
      \<and> (\<forall>req\<in>set (drop (length log') (snd (snd (send_all net calls (c', log'))))).
            post_headers req ''Icon'' = Some (Some i))"
    if ia: "icon a = Some i" and nb: "\<forall>b\<in>set calls. icon b = None" for i
  proof -
    have t: "headers c' ''Icon'' = Some (Some i)"
      unfolding h using ia by simp
    obtain news where "snd (snd (send_all net calls (c', log'))) = log' @ news"
      and "\<forall>req\<in>set news. post_headers req ''Icon'' = headers c' ''Icon''"
      using send_all_requests [of calls "''Icon''" net c' log'] nb by auto
    then show ?thesis
      using t by simp
  qed
  have 5: "length (drop (length log') (snd (snd (send_all net calls (c', log'))))) = length calls"
  proof -
    obtain news where "snd (snd (send_all net calls (c', log'))) = log' @ news"
      and "length news = length calls"
      using send_all_requests [of calls "''Authorization''" net c' log'] by auto
    then show ?thesis by simp
  qed
  from 1 2 3 4 5 show ?thesis by blast
qed


theorem send_msg_headers_persist_witness:
  "map (\<lambda>req. post_headers req ''Tags'')
     (drop 1 (snd (snd (send_all ok_net [disk_full, disk_full]
                          (snd (send_msg ok_net tagged (alerts_client, [])))))))
     = [Some (Some (ascii ''tada'')), Some (Some (ascii ''tada''))]
   \<and> headers (fst (snd (send_msg timeout_net tagged (alerts_client, [])))) ''Title''
       = Some (Some [])"
proof -
  let ?S = "send_msg ok_net tagged (alerts_client, [])"
  let ?c = "fst (snd ?S)" and ?l = "snd (snd ?S)"
  let ?T = "send_msg timeout_net tagged (alerts_client, [])"
  have s: "?S = (fst ?S, ?c, ?l)"
    and t: "?T = (fst ?T, fst (snd ?T), snd (snd ?T))"
    by simp_all
  have a: "tags tagged = Some (ascii ''tada'')" "title tagged = []"
    "\<forall>b\<in>set [disk_full, disk_full]. tags b = None"
    by (simp_all add: disk_full_def tagged_def)
  have l: "length ?l = 1"
    using send_msg_request_headers(3) [OF s] by auto
  let ?news = "drop (length ?l) (snd (snd (send_all ok_net [disk_full, disk_full] (?c, ?l))))"
  from send_msg_headers_persist [OF s, of "[disk_full, disk_full]"] a
  have "\<forall>req\<in>set ?news. post_headers req ''Tags'' = Some (Some (ascii ''tada''))"
    and "length ?news = 2"
    by auto
  then have "map (\<lambda>req. post_headers req ''Tags'') ?news
      = [Some (Some (ascii ''tada'')), Some (Some (ascii ''tada''))]"
    using map_all_const [of ?news "\<lambda>req. post_headers req ''Tags''" "Some (Some (ascii ''tada''))"]
    by (simp add: numeral_2_eq_2)
  moreover from send_msg_headers_persist [OF t, of "[]"] a
  have "headers (fst (snd ?T)) ''Title'' = Some (Some [])"
    by simp
  ultimately show ?thesis
    by (simp add: l)
qed

end
